theory Spec2Isabelle
  imports Main "HOL-Library.Sublist" "HOL-Library.List_Lexorder" "HOL-Library.Char_ord"
begin

section \<open>Data model (package util)\<close>

text \<open>
  Go strings are byte sequences: \<open>string\<close>. A Go \<open>error\<close> is modelled by its message,
  a \<open>string\<close>; a function returning \<open>(T, error)\<close> returns \<open>string + T\<close>, \<open>Inl\<close>
  carrying the message of the non-nil error. A nil slice is the empty list.
\<close>

record ImageHistoryItem =
  CreatedBy :: string

record ConfigObject =
  Env :: "string list"

record ConfigSchema =
  Config :: ConfigObject
  History :: "ImageHistoryItem list"

record Image =
  Source :: string
  FSPath :: string
  Config :: ConfigSchema

text \<open>The zero value \<open>ConfigSchema{}\<close>.\<close>

definition ConfigSchema_zero :: ConfigSchema where
  "ConfigSchema_zero = \<lparr>ConfigSchema.Config = \<lparr>Env = []\<rparr>, History = []\<rparr>"

text \<open>
  \<open>ImagePrepper\<close> is shared by pointer between the resolver and the strategy built on
  it, so the strategies read and may assign its \<open>Source\<close>. The Docker client handle is
  opaque here.
\<close>

record 'c ImagePrepper =
  Source :: string
  Client :: 'c

section \<open>String primitives of the Go library used by the resolver\<close>

text \<open>\<open>strings.HasPrefix(s, prefix)\<close>.\<close>

definition HasPrefix :: "string \<Rightarrow> string \<Rightarrow> bool" where
  "HasPrefix s pre = (length pre \<le> length s \<and> take (length pre) s = pre)"

text \<open>
  \<open>strings.Replace(s, old, "", -1)\<close>: every non-overlapping occurrence of \<open>old\<close>,
  found scanning from the left, is deleted. With an empty \<open>old\<close> the empty replacement
  is inserted between the characters, which leaves \<open>s\<close> as it is.
\<close>

fun Replace_del :: "string \<Rightarrow> string \<Rightarrow> string" where
  "Replace_del [] old = []"
| "Replace_del (c # cs) old =
     (if old \<noteq> [] \<and> HasPrefix (c # cs) old
      then Replace_del (drop (length old) (c # cs)) old
      else c # Replace_del cs old)"

text \<open>
  The regular expression \<open>DaemonPrefix + ".*"\<close> is not anchored, so
  \<open>MatchString\<close> holds as soon as the literal occurs somewhere in the string
  (\<open>.*\<close> also matches the empty rest).
\<close>

fun Contains :: "string \<Rightarrow> string \<Rightarrow> bool" where
  "Contains [] sub = (sub = [])"
| "Contains (c # cs) sub = (HasPrefix (c # cs) sub \<or> Contains cs sub)"

text \<open>
  Modelled from the spec: the declaration of \<open>DaemonPrefix\<close> is not among the sources.
  The value is the daemon scheme named in the comment of \<open>CloudPrepper.SupportsImage\<close>
  and used by the integration test's image names.
\<close>

definition DaemonPrefix :: string where
  "DaemonPrefix = ''daemon://''"

definition RemotePrefix :: string where
  "RemotePrefix = ''remote://''"

section \<open>The Prepper interface and the resolver (image\_prepper.go)\<close>

text \<open>
  A strategy is the record of its methods, each taking the \<open>ImagePrepper\<close> it was
  built on. \<open>GetSource\<close> returns the stored identifier. \<open>SupportsImage\<close> may assign
  the stored identifier, so it returns the \<open>ImagePrepper\<close> too; \<open>GetFileSystem\<close> and
  \<open>GetConfig\<close> only read it, as those of \<open>CloudPrepper\<close> do.
\<close>

record 'c Prepper =
  Name :: string
  GetFileSystem :: "'c ImagePrepper \<Rightarrow> string + string"
  GetConfig :: "'c ImagePrepper \<Rightarrow> string + ConfigSchema"
  SupportsImage :: "'c ImagePrepper \<Rightarrow> bool \<times> 'c ImagePrepper"

definition GetSource :: "'c ImagePrepper \<Rightarrow> string" where
  "GetSource p = ImagePrepper.Source p"

text \<open>
  A history of the strategy methods invoked, in order, each with the strategy's name
  and whether it answered true (\<open>SupportsImage\<close>) or returned a nil error (the other
  two). It is not program state: it records which strategy was probed or used, and when.
\<close>

datatype call =
    SupportsImageCall string bool
  | GetFileSystemCall string bool
  | GetConfigCall string bool

text \<open>The strategies probed, in order.\<close>

fun probes :: "call list \<Rightarrow> string list" where
  "probes [] = []"
| "probes (SupportsImageCall n b # cs) = n # probes cs"
| "probes (c # cs) = probes cs"

text \<open>An acquisition that went through.\<close>

fun acquired :: "call \<Rightarrow> bool" where
  "acquired (GetConfigCall n ok) = ok"
| "acquired c = False"

text \<open>\<open>getImage\<close> of image\_prepper.go: either failure aborts with a wrapped error.\<close>

definition getImage :: "'c Prepper \<Rightarrow> 'c ImagePrepper \<Rightarrow> (string + Image) \<times> call list" where
  "getImage prepper p =
     (case GetFileSystem prepper p of
        Inl err \<Rightarrow> (Inl (''error msg: '' @ err), [GetFileSystemCall (Name prepper) False])
      | Inr imgPath \<Rightarrow>
          (case GetConfig prepper p of
             Inl err \<Rightarrow>
               (Inl (''error msg: '' @ err),
                [GetFileSystemCall (Name prepper) True, GetConfigCall (Name prepper) False])
           | Inr config \<Rightarrow>
               (Inr \<lparr>Image.Source = GetSource p, FSPath = imgPath, Config = config\<rparr>,
                [GetFileSystemCall (Name prepper) True, GetConfigCall (Name prepper) True])))"

text \<open>
  The loop over \<open>orderedPreppers\<close>: a strategy that does not support the image, or
  whose \<open>getImage\<close> fails (\<open>continue\<close>), hands over to the next one; after the last
  one the resolver fails.
\<close>

fun GetImage_loop ::
  "'c Prepper list \<Rightarrow> 'c ImagePrepper \<Rightarrow> (string + Image) \<times> 'c ImagePrepper \<times> call list" where
  "GetImage_loop [] p = (Inl ''Could not retrieve image from source'', p, [])"
| "GetImage_loop (prepper # rest) p =
     (case SupportsImage prepper p of
        (True, p') \<Rightarrow>
          (case getImage prepper p' of
             (Inr img, cs) \<Rightarrow> (Inr img, p', SupportsImageCall (Name prepper) True # cs)
           | (Inl err, cs) \<Rightarrow>
               (case GetImage_loop rest p' of
                  (r, p'', cs') \<Rightarrow> (r, p'', SupportsImageCall (Name prepper) True # cs @ cs')))
      | (False, p') \<Rightarrow>
          (case GetImage_loop rest p' of
             (r, p'', cs') \<Rightarrow> (r, p'', SupportsImageCall (Name prepper) False # cs')))"

text \<open>
  Modelled from the spec: the table \<open>orderedPreppers\<close> is not among the sources. The
  priority order is the one of the spec (local daemon first, then remote registry, then
  local tar file), which the comment above the loop repeats for its first two entries.
\<close>

definition orderedPreppers :: "'c Prepper \<Rightarrow> 'c Prepper \<Rightarrow> 'c Prepper \<Rightarrow> 'c Prepper list" where
  "orderedPreppers DaemonPrepper CloudPrepper TarPrepper = [DaemonPrepper, CloudPrepper, TarPrepper]"

text \<open>
  \<open>ImagePrepper.GetImage\<close>. The three strategies are parameters: \<open>DaemonPrepper\<close> and
  \<open>TarPrepper\<close> are not among the sources, and \<open>CloudPrepper\<close> is there in two
  revisions.
\<close>

definition GetImage ::
  "'c Prepper \<Rightarrow> 'c Prepper \<Rightarrow> 'c Prepper \<Rightarrow> 'c ImagePrepper
     \<Rightarrow> (string + Image) \<times> 'c ImagePrepper \<times> call list" where
  "GetImage DaemonPrepper CloudPrepper TarPrepper p =
     (if HasPrefix (ImagePrepper.Source p) DaemonPrefix then
        (let p' = p\<lparr>ImagePrepper.Source := Replace_del (ImagePrepper.Source p) DaemonPrefix\<rparr>
         in case getImage DaemonPrepper p' of (r, cs) \<Rightarrow> (r, p', cs))
      else if HasPrefix (ImagePrepper.Source p) RemotePrefix then
        (let p' = p\<lparr>ImagePrepper.Source := Replace_del (ImagePrepper.Source p) RemotePrefix\<rparr>
         in case getImage CloudPrepper p' of (r, cs) \<Rightarrow> (r, p', cs))
      else GetImage_loop (orderedPreppers DaemonPrepper CloudPrepper TarPrepper) p)"

text \<open>
  The shape of a resolution history over the strategy names \<open>ns\<close>, in the spec's words:
  the strategies are probed in the order of \<open>ns\<close>; one that answers false is passed
  over; one that answers true is used at once, and the next one is probed only when its
  acquisition fails; a complete acquisition ends the history (\<open>ok\<close>); the history ends
  without one (\<open>\<not> ok\<close>) only when every name is used up.
\<close>

fun priority_trace :: "string list \<Rightarrow> call list \<Rightarrow> bool \<Rightarrow> bool" where
  "priority_trace [] cs ok = (cs = [] \<and> \<not> ok)"
| "priority_trace (n # ns) (SupportsImageCall m False # cs) ok =
     (m = n \<and> priority_trace ns cs ok)"
| "priority_trace (n # ns) (SupportsImageCall m True # GetFileSystemCall m' False # cs) ok =
     (m = n \<and> m' = n \<and> priority_trace ns cs ok)"
| "priority_trace (n # ns)
     (SupportsImageCall m True # GetFileSystemCall m' True # GetConfigCall m'' False # cs) ok =
     (m = n \<and> m' = n \<and> m'' = n \<and> priority_trace ns cs ok)"
| "priority_trace (n # ns)
     (SupportsImageCall m True # GetFileSystemCall m' True # GetConfigCall m'' True # cs) ok =
     (m = n \<and> m' = n \<and> m'' = n \<and> cs = [] \<and> ok)"
| "priority_trace (n # ns) cs ok = False"

text \<open>
  A string no proper suffix of which is a prefix of it: two occurrences of such a string
  never overlap.
\<close>

definition borderless :: "string \<Rightarrow> bool" where
  "borderless pre =
     list_all (\<lambda>k. take (length pre - k) pre \<noteq> drop k pre) [1..<length pre]"

text \<open>
  Strategies for concrete runs: a name, the answer of \<open>SupportsImage\<close>, and whether
  \<open>GetFileSystem\<close> and \<open>GetConfig\<close> succeed.
\<close>

definition ex_Prepper :: "string \<Rightarrow> bool \<Rightarrow> bool \<Rightarrow> bool \<Rightarrow> unit Prepper" where
  "ex_Prepper name supports fs_ok cfg_ok =
     \<lparr>Name = name,
      GetFileSystem =
        (\<lambda>p. if fs_ok then Inr (''/tmp/'' @ ImagePrepper.Source p) else Inl ''no filesystem''),
      GetConfig = (\<lambda>p. if cfg_ok then Inr ConfigSchema_zero else Inl ''no config''),
      SupportsImage = (\<lambda>p. (supports, p))\<rparr>"

section \<open>CloudPrepper (cloud\_prepper.go)\<close>

text \<open>
  The file holds the strategy twice; the two revisions differ in \<open>SupportsImage\<close>.
  \<open>IsTar\<close> (of this package, not among the sources) and \<open>reference.Parse\<close> (of the
  image library) are parameters; \<open>reference.Parse\<close> returns \<open>Inl\<close> for a non-nil
  error. In both revisions a match of the daemon expression comes first.

  First revision: the identifier is claimed when \<open>reference.Parse\<close> returns an error
  (\<open>err != nil\<close>), and then the stored identifier is replaced by the one without the
  remote prefix.
\<close>

definition CloudPrepper_SupportsImage ::
  "(string \<Rightarrow> bool) \<Rightarrow> (string \<Rightarrow> string + 'r) \<Rightarrow> 'c ImagePrepper \<Rightarrow> bool \<times> 'c ImagePrepper" where
  "CloudPrepper_SupportsImage IsTar reference_Parse p =
     (if Contains (ImagePrepper.Source p) DaemonPrefix \<or> IsTar (ImagePrepper.Source p)
      then (False, p)
      else
        (let strippedSource = Replace_del (ImagePrepper.Source p) RemotePrefix
         in case reference_Parse (ImagePrepper.Source p) of
              Inl err \<Rightarrow> (True, p\<lparr>ImagePrepper.Source := strippedSource\<rparr>)
            | Inr ref \<Rightarrow> (False, p)))"

text \<open>Second revision: \<open>(err == nil) && !IsTar(Source)\<close>, and nothing is assigned.\<close>

definition CloudPrepper_SupportsImage_rev2 ::
  "(string \<Rightarrow> bool) \<Rightarrow> (string \<Rightarrow> string + 'r) \<Rightarrow> 'c ImagePrepper \<Rightarrow> bool \<times> 'c ImagePrepper" where
  "CloudPrepper_SupportsImage_rev2 IsTar reference_Parse p =
     (if Contains (ImagePrepper.Source p) DaemonPrefix then (False, p)
      else
        (case reference_Parse (ImagePrepper.Source p) of
           Inl err \<Rightarrow> (False, p)
         | Inr ref \<Rightarrow> (\<not> IsTar (ImagePrepper.Source p), p)))"

text \<open>
  The strategy, over its \<open>SupportsImage\<close> and the capabilities \<open>docker.ParseReference\<close>,
  \<open>getFileSystemFromReference\<close> and \<open>getConfigFromReference\<close>.
\<close>

definition CloudPrepper ::
  "('c ImagePrepper \<Rightarrow> bool \<times> 'c ImagePrepper) \<Rightarrow> (string \<Rightarrow> string + 'ref)
     \<Rightarrow> ('ref \<Rightarrow> string \<Rightarrow> string + string) \<Rightarrow> ('ref \<Rightarrow> string \<Rightarrow> string + ConfigSchema)
     \<Rightarrow> 'c Prepper" where
  "CloudPrepper supports ParseReference getFileSystemFromReference getConfigFromReference =
     \<lparr>Name = ''Cloud Registry'',
      GetFileSystem =
        (\<lambda>p. case ParseReference (''//'' @ ImagePrepper.Source p) of
                Inl err \<Rightarrow> Inl err
              | Inr ref \<Rightarrow> getFileSystemFromReference ref (ImagePrepper.Source p)),
      GetConfig =
        (\<lambda>p. case ParseReference (''//'' @ ImagePrepper.Source p) of
                Inl err \<Rightarrow> Inl err
              | Inr ref \<Rightarrow> getConfigFromReference ref (ImagePrepper.Source p)),
      SupportsImage = supports\<rparr>"

text \<open>
  A \<open>reference.Parse\<close> for concrete runs: it accepts the image names of the integration
  test and nothing else.
\<close>

definition ex_Parse :: "string \<Rightarrow> string + string" where
  "ex_Parse s =
     (if s \<in> set [''gcr.io/gcp-runtimes/diff-base'', ''gcr.io/gcp-runtimes/diff-modified'']
      then Inr s else Inl ''invalid reference format'')"

section \<open>Image preparation in the second source file of package util\<close>

text \<open>
  This \<open>getImage\<close> returns the error of \<open>GetFileSystem\<close> as it is. An error of
  \<open>GetConfig\<close> is passed to \<open>glog.Error\<close> and the image is returned with a nil error;
  its \<open>Config\<close> is what \<open>GetConfig\<close> returned beside the error, the zero
  \<open>ConfigSchema\<close> in every \<open>GetConfig\<close> of the sources. The second component is the
  list of messages given to \<open>glog.Error\<close>.
\<close>

definition getImage_part_002 ::
  "'c Prepper \<Rightarrow> 'c ImagePrepper \<Rightarrow> (string + Image) \<times> string list" where
  "getImage_part_002 p ip =
     (case GetFileSystem p ip of
        Inl err \<Rightarrow> (Inl err, [])
      | Inr imgPath \<Rightarrow>
          (case GetConfig p ip of
             Inl err \<Rightarrow>
               (Inr \<lparr>Image.Source = GetSource ip, FSPath = imgPath, Config = ConfigSchema_zero\<rparr>,
                [''Error retrieving History: '' @ err])
           | Inr config \<Rightarrow>
               (Inr \<lparr>Image.Source = GetSource ip, FSPath = imgPath, Config = config\<rparr>, [])))"

section \<open>Rendering the results (package cmd)\<close>

text \<open>
  The \<open>Result\<close> interface: \<open>OutputStruct\<close> gives the structured payload;
  \<open>OutputText\<close> writes the text of the analyzer named by its argument and returns an
  error or nil.
\<close>

record 'j Result =
  OutputStruct :: 'j
  OutputText :: "string \<Rightarrow> string option"

text \<open>
  What \<open>outputResults\<close> does, in order: a call of \<open>OutputText\<close> for an analyzer, an
  error given to \<open>glog.Error\<close>, the call of \<open>util.JSONify\<close> on the slice of payloads
  (an entry never assigned is nil, \<open>None\<close>), and a method call on a nil \<open>Result\<close>,
  which panics.
\<close>

datatype 'j out_event =
    OutputTextCall string
  | ErrorLogged string
  | JSONifyCall "'j option list"
  | NilResult

text \<open>
  The map \<open>resultMap\<close> is an association list with distinct keys; the order of the list
  is the order in which \<open>range\<close> happens to visit the map. The loop runs over the sorted
  keys with its index \<open>i\<close>.
\<close>

fun outputResults_loop ::
  "bool \<Rightarrow> (string \<times> 'j Result) list \<Rightarrow> nat \<Rightarrow> string list \<Rightarrow> 'j option list
     \<Rightarrow> 'j option list \<times> 'j out_event list" where
  "outputResults_loop json resultMap i [] results = (results, [])"
| "outputResults_loop json resultMap i (analyzerType # rest) results =
     (case map_of resultMap analyzerType of
        None \<Rightarrow> (results, [NilResult])
      | Some result \<Rightarrow>
          if json then
            outputResults_loop json resultMap (Suc i) rest
              (results[i := Some (OutputStruct result)])
          else
            (case outputResults_loop json resultMap (Suc i) rest results of
               (results', out) \<Rightarrow>
                 (results',
                  OutputTextCall analyzerType #
                  (case OutputText result analyzerType of
                     None \<Rightarrow> []
                   | Some err \<Rightarrow> [ErrorLogged err]) @ out)))"

text \<open>
  \<open>outputResults\<close>; the flag \<open>json\<close> of the package and \<open>util.JSONify\<close>, which returns
  an error or nil, are parameters. \<open>sort.Strings\<close> orders strings byte by byte, a proper
  prefix first: the order of \<open>string\<close> here.
\<close>

definition outputResults ::
  "bool \<Rightarrow> ('j option list \<Rightarrow> string option) \<Rightarrow> (string \<times> 'j Result) list \<Rightarrow> 'j out_event list" where
  "outputResults json JSONify resultMap =
     (let sortedTypes = sort (map fst resultMap);
          results = replicate (length resultMap) None
      in case outputResults_loop json resultMap 0 sortedTypes results of
           (results', out) \<Rightarrow>
             if NilResult \<in> set out then out
             else if json then
               out @ JSONifyCall results' #
                 (case JSONify results' of None \<Rightarrow> [] | Some err \<Rightarrow> [ErrorLogged err])
             else out)"

text \<open>The analyzers whose text was rendered, in order.\<close>

fun rendered :: "'j out_event list \<Rightarrow> string list" where
  "rendered [] = []"
| "rendered (OutputTextCall n # out) = n # rendered out"
| "rendered (ev # out) = rendered out"

text \<open>Results for concrete runs: a payload, and the error of \<open>OutputText\<close> if any.\<close>

definition ex_Result :: "nat \<Rightarrow> string option \<Rightarrow> nat Result" where
  "ex_Result payload err = \<lparr>OutputStruct = payload, OutputText = (\<lambda>analyzerType. err)\<rparr>"

text \<open>The text-mode rendering of one analyzer: its text, then its error in the log.\<close>

definition render_text :: "(string \<times> 'j Result) list \<Rightarrow> string \<Rightarrow> 'j out_event list" where
  "render_text resultMap k =
     OutputTextCall k #
     (case OutputText (the (map_of resultMap k)) k of
        None \<Rightarrow> []
      | Some err \<Rightarrow> [ErrorLogged err])"

section \<open>Releasing an image\<close>

text \<open>
  \<open>CleanupImage\<close> takes the image by value and returns nothing. \<open>os.RemoveAll\<close> is a
  parameter: it takes the path and the filesystem and gives the filesystem it leaves and
  its error or nil. The result is the local copy of the image when the function returns, the
  filesystem, the paths \<open>os.RemoveAll\<close> was called on, and the messages given to
  \<open>glog.Error\<close>.
\<close>

definition CleanupImage ::
  "(string \<Rightarrow> 'fs \<Rightarrow> 'fs \<times> string option) \<Rightarrow> Image \<Rightarrow> 'fs
     \<Rightarrow> Image \<times> 'fs \<times> string list \<times> string list" where
  "CleanupImage RemoveAll img fs =
     (if FSPath img \<noteq> [] then
        (case RemoveAll (FSPath img) fs of
           (fs', None) \<Rightarrow> (img, fs', [FSPath img], [])
         | (fs', Some err) \<Rightarrow> (img, fs', [FSPath img], [err]))
      else (img, fs, [], []))"

text \<open>
  For concrete runs: a filesystem as the list of its paths, a removal of a path with
  everything below it, and a removal that fails and removes nothing.
\<close>

definition ex_RemoveAll :: "string \<Rightarrow> string list \<Rightarrow> string list \<times> string option" where
  "ex_RemoveAll path fs = (filter (\<lambda>q. q \<noteq> path \<and> \<not> HasPrefix q (path @ ''/'')) fs, None)"

definition ex_RemoveAll_denied :: "string \<Rightarrow> string list \<Rightarrow> string list \<times> string option" where
  "ex_RemoveAll_denied path fs = (fs, Some ''permission denied'')"

section \<open>The layer pipeline (processLayers)\<close>

text \<open>
  What \<open>processLayers\<close> calls, as parameters: \<open>imgSrc.GetBlob\<close> and
  \<open>compression.DetectCompression\<close> of the image library, the latter giving the
  decompressor (or nil) and the reader, and \<open>unpackTar\<close> of this package, which is not
  among the sources; its result here is its error or nil.
\<close>

record ('b, 'r) layer_caps =
  GetBlob :: "'b \<Rightarrow> string + 'r"
  DetectCompression :: "'r \<Rightarrow> string + (('r \<Rightarrow> string + 'r) option \<times> 'r)"
  unpackTar :: "'r \<Rightarrow> string \<Rightarrow> string option"

text \<open>
  The body of a worker up to the call of \<open>unpackTar\<close>: the reader of the layer's tar
  stream, or the error the worker goes on to send.
\<close>

definition fetch_layer :: "('b, 'r) layer_caps \<Rightarrow> 'b \<Rightarrow> string + 'r" where
  "fetch_layer caps b =
     (case GetBlob caps b of
        Inl err \<Rightarrow> Inl (''Failed to pull image layer: '' @ err)
      | Inr bi \<Rightarrow>
          (case DetectCompression caps bi of
             Inl err \<Rightarrow> Inl (''Failed to detect image compression: '' @ err)
           | Inr (f, reader) \<Rightarrow>
               (case f of
                  None \<Rightarrow> Inr reader
                | Some decompress \<Rightarrow>
                    (case decompress reader of
                       Inl err \<Rightarrow> Inl (''Failed to decompress image: '' @ err)
                     | Inr reader' \<Rightarrow> Inr reader'))))"

text \<open>
  A channel of errors: its capacity, the elements queued in its buffer, and whether it
  is closed. \<open>len\<close> of a channel is the number of queued elements.
\<close>

record chan =
  cap :: nat
  queue :: "string list"
  closed :: bool

definition make_chan :: "nat \<Rightarrow> chan" where
  "make_chan n = \<lparr>cap = n, queue = [], closed = False\<rparr>"

definition chan_len :: "chan \<Rightarrow> nat" where
  "chan_len c = length (queue c)"

text \<open>
  The goroutines: the caller of \<open>processLayers\<close>, the goroutine it starts, which
  starts one worker for each layer, waits for them and closes the channel, and the
  workers.
\<close>

datatype goroutine = Caller | Spawner | Worker nat

text \<open>
  Where each of them stands. The caller: before the \<open>go\<close> statement, at the test of
  \<open>len(errs)\<close>, in the \<open>range\<close> loop with \<open>fullError\<close> so far, or returned with
  an error or nil. The spawner: not started, before its loop, in \<open>wg.Wait\<close>, or done. A
  worker: not run yet, with the reader before \<open>unpackTar\<close>, inside \<open>unpackTar\<close>, blocked
  in a send on \<open>errs\<close>, or returned (\<open>wg.Done\<close>).
\<close>

datatype caller = CStart | CCheck | CRange string | CReturned "string option"

datatype spawner = SNone | SLaunch | SWait | SDone

datatype 'r worker = Ready | Fetched 'r | Unpacking 'r | Sending string | Done

text \<open>The passes of \<open>unpackTar\<close> over the destination: begin and end, with the layer's index.\<close>

datatype apply_event = Begin nat | End nat

record 'r pl_state =
  errs :: chan
  caller :: caller
  spawner :: spawner
  workers :: "'r worker list"
  applied :: "apply_event list"

text \<open>The state after \<open>errs := make(chan error)\<close>: the channel has no buffer.\<close>

definition pl_init :: "'r pl_state" where
  "pl_init = \<lparr>errs = make_chan 0, caller = CStart, spawner = SNone, workers = [], applied = []\<rparr>"

text \<open>
  One step of the caller: the \<open>go\<close> statement; the test \<open>len(errs) != 0\<close>, after
  which it returns the nil \<open>err\<close> or enters the loop; one turn of the loop, which
  takes a queued error, ends when the channel is closed, and waits otherwise.
\<close>

definition step_caller :: "'r pl_state \<Rightarrow> 'r pl_state" where
  "step_caller s =
     (case caller s of
        CStart \<Rightarrow> s\<lparr>caller := CCheck, spawner := SLaunch\<rparr>
      | CCheck \<Rightarrow>
          if chan_len (errs s) \<noteq> 0 then s\<lparr>caller := CRange []\<rparr>
          else s\<lparr>caller := CReturned None\<rparr>
      | CRange fullError \<Rightarrow>
          (case queue (errs s) of
             e # es \<Rightarrow> s\<lparr>caller := CRange (fullError @ e), errs := (errs s)\<lparr>queue := es\<rparr>\<rparr>
           | [] \<Rightarrow> if closed (errs s) then s\<lparr>caller := CReturned (Some fullError)\<rparr> else s)
      | CReturned r \<Rightarrow> s)"

text \<open>
  One step of the spawner: \<open>wg.Add\<close> and the loop of \<open>go\<close> statements; then
  \<open>wg.Wait\<close>, which lets it close the channel once every worker has returned.
\<close>

definition step_spawner :: "'b list \<Rightarrow> 'r pl_state \<Rightarrow> 'r pl_state" where
  "step_spawner layerInfos s =
     (case spawner s of
        SNone \<Rightarrow> s
      | SLaunch \<Rightarrow> s\<lparr>workers := replicate (length layerInfos) Ready, spawner := SWait\<rparr>
      | SWait \<Rightarrow>
          if list_all (\<lambda>w. w = Done) (workers s)
          then s\<lparr>errs := (errs s)\<lparr>closed := True\<rparr>, spawner := SDone\<rparr>
          else s
      | SDone \<Rightarrow> s)"

text \<open>
  One step of worker \<open>i\<close>: fetching and decompressing; entering \<open>unpackTar\<close> on the
  shared \<open>path\<close>; leaving it; sending its error. A send goes into the buffer when there
  is room, or to the caller when the caller is receiving, and waits otherwise.
\<close>

definition step_worker ::
  "('b, 'r) layer_caps \<Rightarrow> string \<Rightarrow> 'b list \<Rightarrow> nat \<Rightarrow> 'r pl_state \<Rightarrow> 'r pl_state" where
  "step_worker caps path layerInfos i s =
     (if i < length (workers s) \<and> i < length layerInfos then
        (case workers s ! i of
           Ready \<Rightarrow>
             (case fetch_layer caps (layerInfos ! i) of
                Inl msg \<Rightarrow> s\<lparr>workers := (workers s)[i := Sending msg]\<rparr>
              | Inr reader \<Rightarrow> s\<lparr>workers := (workers s)[i := Fetched reader]\<rparr>)
         | Fetched reader \<Rightarrow>
             s\<lparr>workers := (workers s)[i := Unpacking reader], applied := applied s @ [Begin i]\<rparr>
         | Unpacking reader \<Rightarrow>
             (case unpackTar caps reader path of
                None \<Rightarrow> s\<lparr>workers := (workers s)[i := Done], applied := applied s @ [End i]\<rparr>
              | Some err \<Rightarrow>
                  s\<lparr>workers := (workers s)[i := Sending (''Failed to untar layer with error: '' @ err)],
                    applied := applied s @ [End i]\<rparr>)
         | Sending msg \<Rightarrow>
             if length (queue (errs s)) < cap (errs s) then
               s\<lparr>workers := (workers s)[i := Done],
                 errs := (errs s)\<lparr>queue := queue (errs s) @ [msg]\<rparr>\<rparr>
             else
               (case caller s of
                  CRange fullError \<Rightarrow>
                    s\<lparr>workers := (workers s)[i := Done], caller := CRange (fullError @ msg)\<rparr>
                | _ \<Rightarrow> s)
         | Done \<Rightarrow> s)
      else s)"

fun step ::
  "('b, 'r) layer_caps \<Rightarrow> string \<Rightarrow> 'b list \<Rightarrow> 'r pl_state \<Rightarrow> goroutine \<Rightarrow> 'r pl_state" where
  "step caps path layerInfos s Caller = step_caller s"
| "step caps path layerInfos s Spawner = step_spawner layerInfos s"
| "step caps path layerInfos s (Worker i) = step_worker caps path layerInfos i s"

text \<open>
  \<open>processLayers\<close> under a schedule: the list of the goroutines in the order in which
  they take their steps. The value it returns is in \<open>caller\<close>.
\<close>

definition processLayers ::
  "('b, 'r) layer_caps \<Rightarrow> string \<Rightarrow> 'b list \<Rightarrow> goroutine list \<Rightarrow> 'r pl_state" where
  "processLayers caps path layerInfos sched = foldl (step caps path layerInfos) pl_init sched"

text \<open>
  Application in layer order, in the spec's words: the passes over the destination do
  not overlap, each ending before the next begins, and their indices increase.
\<close>

fun passes :: "apply_event list \<Rightarrow> nat list option" where
  "passes [] = Some []"
| "passes [Begin i] = Some [i]"
| "passes (Begin i # End j # evs) =
     (if i = j then map_option (\<lambda>is. i # is) (passes evs) else None)"
| "passes evs = None"

definition in_layer_order :: "apply_event list \<Rightarrow> bool" where
  "in_layer_order evs = (case passes evs of None \<Rightarrow> False | Some is \<Rightarrow> sorted_wrt (<) is)"

text \<open>
  Capabilities for concrete runs: a blob is its digest, one digest cannot be fetched,
  nothing is compressed, and unpacking succeeds.
\<close>

definition ex_caps :: "(string, string) layer_caps" where
  "ex_caps =
     \<lparr>GetBlob = (\<lambda>b. if b = ''sha256:bad'' then Inl ''connection reset'' else Inr b),
      DetectCompression = (\<lambda>bi. Inr (None, bi)),
      unpackTar = (\<lambda>reader path. None)\<rparr>"

text \<open>
  The channel has no buffer, so nothing is ever queued in it, and the caller, which
  tests \<open>len(errs)\<close>, never enters its loop: it returns nil or has not returned.
\<close>

definition pl_inv :: "'r pl_state \<Rightarrow> bool" where
  "pl_inv s \<longleftrightarrow> cap (errs s) = 0 \<and> queue (errs s) = []
                \<and> (caller s = CStart \<or> caller s = CCheck \<or> caller s = CReturned None)"

text \<open>The caller needs two steps of its own, whatever the other goroutines do.\<close>

fun caller_after :: "nat \<Rightarrow> caller" where
  "caller_after 0 = CStart"
| "caller_after (Suc 0) = CCheck"
| "caller_after (Suc (Suc n)) = CReturned None"

section \<open>Properties of the string primitives\<close>

lemma borderless_Daemon: "borderless DaemonPrefix"
  by (simp add: borderless_def DaemonPrefix_def upt_conv_Cons)

lemma borderless_Remote: "borderless RemotePrefix"
  by (simp add: borderless_def RemotePrefix_def upt_conv_Cons)

lemma Remote_not_Daemon: "HasPrefix s RemotePrefix \<Longrightarrow> \<not> HasPrefix s DaemonPrefix"
  by (auto simp: HasPrefix_def RemotePrefix_def DaemonPrefix_def)

lemma HasPrefix_self_append: "HasPrefix (pre @ b) pre"
  by (simp add: HasPrefix_def)

lemma HasPrefix_append_long: "HasPrefix a pre \<Longrightarrow> HasPrefix (a @ b) pre"
  by (auto simp: HasPrefix_def)

lemma drop_append_le: "n \<le> length xs \<Longrightarrow> drop n (xs @ ys) = drop n xs @ ys"
  by simp

text \<open>
  An occurrence of a borderless \<open>pre\<close> that starts inside \<open>a\<close> lies inside \<open>a\<close>: it
  cannot reach into the occurrence that follows \<open>a\<close>.
\<close>

lemma no_straddle:
  assumes bl: "borderless pre" and np: "\<not> HasPrefix a pre" and ne: "a \<noteq> []"
  shows "\<not> HasPrefix (a @ pre @ b) pre"
proof
  assume hp: "HasPrefix (a @ pre @ b) pre"
  show False
  proof (cases "length pre \<le> length a")
    case True
    with hp have "HasPrefix a pre" by (simp add: HasPrefix_def)
    with np show False by simp
  next
    case False
    then have lt: "length a < length pre" by simp
    from hp have "take (length pre) (a @ pre @ b) = pre" by (simp add: HasPrefix_def)
    with lt have "a @ take (length pre - length a) pre = pre" by simp
    then have "drop (length a) (a @ take (length pre - length a) pre) = drop (length a) pre"
      by simp
    then have "take (length pre - length a) pre = drop (length a) pre" by simp
    moreover from ne have "1 \<le> length a" by (cases a) auto
    ultimately show False
      using bl lt unfolding borderless_def list_all_iff by auto
  qed
qed

lemma Replace_del_self_append:
  assumes "pre \<noteq> []"
  shows "Replace_del (pre @ b) pre = Replace_del b pre"
proof -
  from assms obtain x xs where pre: "pre = x # xs" by (cases pre) auto
  have "Replace_del ((x # xs) @ b) (x # xs)
          = Replace_del (drop (length (x # xs)) ((x # xs) @ b)) (x # xs)"
    using HasPrefix_self_append[of "x # xs" b] by simp
  then show ?thesis by (simp add: pre)
qed

lemma Replace_del_occurrence:
  "borderless pre \<Longrightarrow> pre \<noteq> [] \<Longrightarrow>
     Replace_del (a @ pre @ b) pre = Replace_del a pre @ Replace_del b pre"
proof (induction a pre rule: Replace_del.induct)
  case (1 old)
  then show ?case by (simp add: Replace_del_self_append)
next
  case (2 c cs old)
  show ?case
  proof (cases "HasPrefix (c # cs) old")
    case True
    then have len: "length old \<le> length (c # cs)" by (simp add: HasPrefix_def)
    have hp: "HasPrefix ((c # cs) @ old @ b) old"
      using True by (rule HasPrefix_append_long)
    have "Replace_del ((c # cs) @ old @ b) old
            = Replace_del (drop (length old) ((c # cs) @ old @ b)) old"
      using hp "2.prems"(2) by simp
    also have "drop (length old) ((c # cs) @ old @ b) = drop (length old) (c # cs) @ old @ b"
      using len by (rule drop_append_le)
    also have "Replace_del (drop (length old) (c # cs) @ old @ b) old
            = Replace_del (drop (length old) (c # cs)) old @ Replace_del b old"
      using "2.IH"(1) True "2.prems" by blast
    also have "Replace_del (drop (length old) (c # cs)) old = Replace_del (c # cs) old"
      using True "2.prems"(2) by simp
    finally show ?thesis .
  next
    case False
    have "\<not> HasPrefix ((c # cs) @ old @ b) old"
      using no_straddle[OF "2.prems"(1) False] by simp
    then have "Replace_del ((c # cs) @ old @ b) old = c # Replace_del (cs @ old @ b) old"
      by simp
    also have "Replace_del (cs @ old @ b) old = Replace_del cs old @ Replace_del b old"
      using "2.IH"(2) False "2.prems" by blast
    finally show ?thesis using False by simp
  qed
qed

lemma Replace_del_absent: "\<not> Contains s pre \<Longrightarrow> Replace_del s pre = s"
  by (induction s pre rule: Replace_del.induct) auto

lemma Replace_del_length: "length (Replace_del s old) \<le> length s"
proof (induction s old rule: Replace_del.induct)
  case (1 old)
  then show ?case by simp
next
  case (2 c cs old)
  then show ?case by (auto simp: le_Suc_eq)
qed

lemma Replace_del_shorter:
  assumes "HasPrefix s pre" "pre \<noteq> []"
  shows "length (Replace_del s pre) < length s"
proof -
  from assms obtain c cs where s: "s = c # cs"
    by (cases s) (auto simp: HasPrefix_def)
  have "Replace_del s pre = Replace_del (drop (length pre) s) pre"
    using assms by (simp add: s)
  moreover have "length (Replace_del (drop (length pre) s) pre) \<le> length (drop (length pre) s)"
    by (rule Replace_del_length)
  moreover have "length (drop (length pre) s) < length s"
    using assms by (simp add: s)
  ultimately show ?thesis by simp
qed

section \<open>Properties of the resolver\<close>

lemma probes_append: "probes (xs @ ys) = probes xs @ probes ys"
  by (induction xs rule: probes.induct) auto

lemma getImage_calls:
  "snd (getImage S p) = [GetFileSystemCall (Name S) False]
   \<or> snd (getImage S p) = [GetFileSystemCall (Name S) True, GetConfigCall (Name S) False]
   \<or> snd (getImage S p) = [GetFileSystemCall (Name S) True, GetConfigCall (Name S) True]"
  by (auto simp: getImage_def split: sum.splits)

lemma getImage_probes: "probes (snd (getImage S p)) = []"
  using getImage_calls[of S p] by auto

lemma getImage_Inr_calls:
  "getImage S p = (Inr img, cs) \<Longrightarrow>
     cs = [GetFileSystemCall (Name S) True, GetConfigCall (Name S) True]"
  by (auto simp: getImage_def split: sum.splits)

lemma getImage_Inl_calls:
  "getImage S p = (Inl e, cs) \<Longrightarrow> (\<forall>c\<in>set cs. \<not> acquired c) \<and> probes cs = []"
  by (auto simp: getImage_def split: sum.splits)

lemma getImage_Source:
  "fst (getImage S p) = Inr img \<Longrightarrow> Image.Source img = ImagePrepper.Source p"
  by (auto simp: getImage_def GetSource_def split: sum.splits)

text \<open>With a scheme prefix the resolver is \<open>getImage\<close> of the one strategy.\<close>

lemma GetImage_prefixed:
  assumes "(pre = DaemonPrefix \<and> S = D) \<or> (pre = RemotePrefix \<and> S = C)"
      and "HasPrefix (ImagePrepper.Source p) pre"
      and "p' = p\<lparr>ImagePrepper.Source := Replace_del (ImagePrepper.Source p) pre\<rparr>"
  shows "GetImage D C T p = (fst (getImage S p'), p', snd (getImage S p'))"
  using assms Remote_not_Daemon[of "ImagePrepper.Source p"]
  by (auto simp: GetImage_def Let_def split: prod.splits)

lemma GetImage_unprefixed:
  assumes "\<not> HasPrefix (ImagePrepper.Source p) DaemonPrefix"
      and "\<not> HasPrefix (ImagePrepper.Source p) RemotePrefix"
  shows "GetImage D C T p = GetImage_loop [D, C, T] p"
  using assms by (simp add: GetImage_def orderedPreppers_def)

lemma loop_probes_prefix:
  "GetImage_loop ps p = (r, p', cs) \<Longrightarrow> prefix (probes cs) (map Name ps)"
proof (induction ps arbitrary: p r p' cs)
  case Nil
  then show ?case by simp
next
  case (Cons a ps)
  then show ?case
    by (auto split: prod.splits bool.splits sum.splits
             simp: probes_append getImage_probes
             dest!: getImage_Inr_calls getImage_Inl_calls)
qed

lemma loop_failure:
  "GetImage_loop ps p = (Inl e, p', cs) \<Longrightarrow>
     e = ''Could not retrieve image from source'' \<and> probes cs = map Name ps
     \<and> (\<forall>c\<in>set cs. \<not> acquired c)"
proof (induction ps arbitrary: p e p' cs)
  case Nil
  then show ?case by simp
next
  case (Cons a ps)
  then show ?case
    by (fastforce split: prod.splits bool.splits sum.splits
                  simp: probes_append dest!: getImage_Inl_calls)
qed

lemma loop_success:
  "GetImage_loop ps p = (Inr img, p', cs) \<Longrightarrow>
     \<exists>cs0 S q. S \<in> set ps \<and> SupportsImage S q = (True, p') \<and> fst (getImage S p') = Inr img
       \<and> cs = cs0 @ [SupportsImageCall (Name S) True, GetFileSystemCall (Name S) True,
                     GetConfigCall (Name S) True]
       \<and> (\<forall>c\<in>set cs0. \<not> acquired c)"
proof (induction ps arbitrary: p img p' cs)
  case Nil
  then show ?case by simp
next
  case (Cons a ps)
  obtain b q where sa: "SupportsImage a p = (b, q)"
    by (cases "SupportsImage a p")
  obtain r1 c1 where ga: "getImage a q = (r1, c1)"
    by (cases "getImage a q")
  obtain r2 q2 c2 where lp: "GetImage_loop ps q = (r2, q2, c2)"
    by (cases "GetImage_loop ps q") auto
  show ?case
  proof (cases "b \<and> (\<exists>i. r1 = Inr i)")
    case True
    then obtain i where i: "r1 = Inr i" and b: b by auto
    with Cons.prems sa ga
    have "img = i" "p' = q" "cs = SupportsImageCall (Name a) True # c1" by auto
    moreover have "c1 = [GetFileSystemCall (Name a) True, GetConfigCall (Name a) True]"
      using ga i getImage_Inr_calls by blast
    ultimately show ?thesis
      using sa ga b i by (intro exI[of _ "[]"] exI[of _ a] exI[of _ p]) auto
  next
    case False
    then have "r2 = Inr img \<and> q2 = p' \<and> (\<exists>pre. cs = pre @ c2 \<and> (\<forall>c\<in>set pre. \<not> acquired c))"
      using Cons.prems sa ga lp
      by (cases b; cases r1) (auto dest!: getImage_Inl_calls)
    then obtain pre where 1: "r2 = Inr img" "q2 = p'" "cs = pre @ c2"
        "\<forall>c\<in>set pre. \<not> acquired c"
      by blast
    from Cons.IH[of q img p' c2] lp 1 obtain cs0 S q' where
      "S \<in> set ps" "SupportsImage S q' = (True, p')" "fst (getImage S p') = Inr img"
      "c2 = cs0 @ [SupportsImageCall (Name S) True, GetFileSystemCall (Name S) True,
                   GetConfigCall (Name S) True]"
      "\<forall>c\<in>set cs0. \<not> acquired c"
      by blast
    then show ?thesis
      using 1 by (intro exI[of _ "pre @ cs0"] exI[of _ S] exI[of _ q']) auto
  qed
qed

lemma loop_priority_trace:
  "GetImage_loop ps p = (r, p', cs) \<Longrightarrow> priority_trace (map Name ps) cs (\<not> isl r)"
proof (induction ps arbitrary: p r p' cs)
  case Nil
  then show ?case by auto
next
  case (Cons a ps)
  obtain b q where sa: "SupportsImage a p = (b, q)"
    by (cases "SupportsImage a p")
  obtain r2 q2 c2 where lp: "GetImage_loop ps q = (r2, q2, c2)"
    by (cases "GetImage_loop ps q") auto
  note ih = Cons.IH[OF lp]
  show ?case
  proof (cases b)
    case False
    with Cons.prems sa lp ih show ?thesis by auto
  next
    case True
    show ?thesis
    proof (cases "GetFileSystem a q")
      case (Inl e)
      with Cons.prems sa lp ih True show ?thesis by (auto simp: getImage_def)
    next
      case fs: (Inr path)
      show ?thesis
      proof (cases "GetConfig a q")
        case (Inl e)
        with Cons.prems sa lp ih True fs show ?thesis by (auto simp: getImage_def)
      next
        case (Inr cfg)
        with Cons.prems sa lp ih True fs show ?thesis by (auto simp: getImage_def)
      qed
    qed
  qed
qed

text \<open>
  Claim C3. An identifier with the daemon prefix is resolved by the daemon strategy
  alone, and one with the remote prefix by the registry strategy alone, on the stored
  identifier with the prefix deleted: the resolver's answer is that strategy's
  \<open>getImage\<close>, no \<open>SupportsImage\<close> of any strategy is called, and an error of
  \<open>GetFileSystem\<close> or \<open>GetConfig\<close> of that strategy is the resolver's error, with no
  further call after it.
\<close>

theorem resolve_prefix_exclusive:
  assumes "(pre = DaemonPrefix \<and> S = D) \<or> (pre = RemotePrefix \<and> S = C)"
      and "HasPrefix (ImagePrepper.Source p) pre"
      and "p' = p\<lparr>ImagePrepper.Source := Replace_del (ImagePrepper.Source p) pre\<rparr>"
  shows "GetImage D C T p = (fst (getImage S p'), p', snd (getImage S p'))
       \<and> probes (snd (snd (GetImage D C T p))) = []
       \<and> (\<forall>e. GetFileSystem S p' = Inl e \<longrightarrow>
             GetImage D C T p =
               (Inl (''error msg: '' @ e), p', [GetFileSystemCall (Name S) False]))
       \<and> (\<forall>path e. GetFileSystem S p' = Inr path \<and> GetConfig S p' = Inl e \<longrightarrow>
             GetImage D C T p =
               (Inl (''error msg: '' @ e), p',
                [GetFileSystemCall (Name S) True, GetConfigCall (Name S) False]))"
proof -
  have eq: "GetImage D C T p = (fst (getImage S p'), p', snd (getImage S p'))"
    using assms by (rule GetImage_prefixed)
  moreover have "probes (snd (getImage S p')) = []"
    by (rule getImage_probes)
  moreover have "\<forall>e. GetFileSystem S p' = Inl e \<longrightarrow>
      getImage S p' = (Inl (''error msg: '' @ e), [GetFileSystemCall (Name S) False])"
    by (simp add: getImage_def)
  moreover have "\<forall>path e. GetFileSystem S p' = Inr path \<and> GetConfig S p' = Inl e \<longrightarrow>
      getImage S p' = (Inl (''error msg: '' @ e),
                [GetFileSystemCall (Name S) True, GetConfigCall (Name S) False])"
    by (simp add: getImage_def)
  ultimately show ?thesis by simp
qed

theorem resolve_prefix_exclusive_witness:
  "HasPrefix ''daemon://gcr.io/gcp-runtimes/multi-base'' DaemonPrefix \<and>
   GetImage (ex_Prepper ''Local Daemon'' True False True)
            (ex_Prepper ''Cloud Registry'' True True True)
            (ex_Prepper ''Tar'' True True True)
            \<lparr>ImagePrepper.Source = ''daemon://gcr.io/gcp-runtimes/multi-base'', Client = ()\<rparr>
     = (Inl ''error msg: no filesystem'',
        \<lparr>ImagePrepper.Source = ''gcr.io/gcp-runtimes/multi-base'', Client = ()\<rparr>,
        [GetFileSystemCall ''Local Daemon'' False])"
proof -
  let ?src = "''daemon://gcr.io/gcp-runtimes/multi-base''"
  let ?p = "\<lparr>ImagePrepper.Source = ?src, Client = ()\<rparr>"
  let ?q = "\<lparr>ImagePrepper.Source = ''gcr.io/gcp-runtimes/multi-base'', Client = ()\<rparr>"
  let ?D = "ex_Prepper ''Local Daemon'' True False True"
  let ?C = "ex_Prepper ''Cloud Registry'' True True True"
  let ?T = "ex_Prepper ''Tar'' True True True"
  have h: "HasPrefix ?src DaemonPrefix"
    by (simp add: HasPrefix_def DaemonPrefix_def)
  have s: "Replace_del ?src DaemonPrefix = ''gcr.io/gcp-runtimes/multi-base''"
    by (simp add: HasPrefix_def DaemonPrefix_def)
  have h2: "HasPrefix (ImagePrepper.Source ?p) DaemonPrefix"
    using h by simp
  have q: "?q = ?p\<lparr>ImagePrepper.Source := Replace_del (ImagePrepper.Source ?p) DaemonPrefix\<rparr>"
    using s by simp
  have f: "GetFileSystem ?D ?q = Inl ''no filesystem''" and n: "Name ?D = ''Local Daemon''"
    by (simp_all add: ex_Prepper_def)
  have "\<forall>e. GetFileSystem ?D ?q = Inl e \<longrightarrow>
          GetImage ?D ?C ?T ?p
            = (Inl (''error msg: '' @ e), ?q, [GetFileSystemCall (Name ?D) False])"
    using resolve_prefix_exclusive[where pre = DaemonPrefix and S = ?D and D = ?D and C = ?C
        and T = ?T and p = ?p and p' = ?q, OF disjI1[OF conjI[OF refl refl]] h2 q]
    by blast
  with f have "GetImage ?D ?C ?T ?p
      = (Inl (''error msg: '' @ ''no filesystem''), ?q, [GetFileSystemCall (Name ?D) False])"
    by blast
  with h n show ?thesis by simp
qed

text \<open>
  Claim C4. An identifier with neither prefix is resolved by the loop over the priority
  list (daemon, registry, tar): the history of calls is one that \<open>priority_trace\<close>
  accepts, so the strategies are probed in that order, the first one answering true is
  used, and the next one is probed when its acquisition fails; an image that is returned
  is the \<open>getImage\<close> of the last strategy probed, no earlier acquisition having gone
  through; the resolver fails, with its own error, only after all three were probed.
\<close>

theorem resolve_unprefixed_priority:
  assumes "\<not> HasPrefix (ImagePrepper.Source p) DaemonPrefix"
      and "\<not> HasPrefix (ImagePrepper.Source p) RemotePrefix"
      and "GetImage D C T p = (r, p', cs)"
  shows "priority_trace [Name D, Name C, Name T] cs (\<not> isl r)
       \<and> prefix (probes cs) [Name D, Name C, Name T]
       \<and> (\<forall>img. r = Inr img \<longrightarrow>
            (\<exists>S\<in>{D, C, T}. \<exists>cs0. fst (getImage S p') = Inr img
               \<and> cs = cs0 @ [SupportsImageCall (Name S) True, GetFileSystemCall (Name S) True,
                             GetConfigCall (Name S) True]
               \<and> (\<forall>c\<in>set cs0. \<not> acquired c)))
       \<and> (\<forall>e. r = Inl e \<longrightarrow>
            e = ''Could not retrieve image from source''
            \<and> probes cs = [Name D, Name C, Name T]
            \<and> (\<forall>c\<in>set cs. \<not> acquired c))"
proof -
  have lp: "GetImage_loop [D, C, T] p = (r, p', cs)"
    using assms by (simp add: GetImage_unprefixed)
  have 1: "priority_trace [Name D, Name C, Name T] cs (\<not> isl r)"
    using loop_priority_trace[OF lp] by simp
  have 2: "prefix (probes cs) [Name D, Name C, Name T]"
    using loop_probes_prefix[OF lp] by simp
  have 3: "\<exists>S\<in>{D, C, T}. \<exists>cs0. fst (getImage S p') = Inr img
               \<and> cs = cs0 @ [SupportsImageCall (Name S) True, GetFileSystemCall (Name S) True,
                             GetConfigCall (Name S) True]
               \<and> (\<forall>c\<in>set cs0. \<not> acquired c)" if "r = Inr img" for img
  proof -
    from that lp have "GetImage_loop [D, C, T] p = (Inr img, p', cs)" by simp
    from loop_success[OF this] show ?thesis by auto
  qed
  have 4: "e = ''Could not retrieve image from source''
            \<and> probes cs = [Name D, Name C, Name T]
            \<and> (\<forall>c\<in>set cs. \<not> acquired c)" if "r = Inl e" for e
  proof -
    from that lp have "GetImage_loop [D, C, T] p = (Inl e, p', cs)" by simp
    from loop_failure[OF this] show ?thesis by simp
  qed
  from 1 2 3 4 show ?thesis by blast
qed

theorem resolve_unprefixed_priority_witness:
  "\<not> HasPrefix ''gcr.io/gcp-runtimes/diff-base'' DaemonPrefix
   \<and> \<not> HasPrefix ''gcr.io/gcp-runtimes/diff-base'' RemotePrefix
   \<and> GetImage (ex_Prepper ''Local Daemon'' True False True)
              (ex_Prepper ''Cloud Registry'' True True True)
              (ex_Prepper ''Tar'' True True True)
              \<lparr>ImagePrepper.Source = ''gcr.io/gcp-runtimes/diff-base'', Client = ()\<rparr>
       = (Inr \<lparr>Image.Source = ''gcr.io/gcp-runtimes/diff-base'',
               FSPath = ''/tmp/gcr.io/gcp-runtimes/diff-base'', Config = ConfigSchema_zero\<rparr>,
          \<lparr>ImagePrepper.Source = ''gcr.io/gcp-runtimes/diff-base'', Client = ()\<rparr>,
          [SupportsImageCall ''Local Daemon'' True, GetFileSystemCall ''Local Daemon'' False,
           SupportsImageCall ''Cloud Registry'' True, GetFileSystemCall ''Cloud Registry'' True,
           GetConfigCall ''Cloud Registry'' True])
   \<and> priority_trace [''Local Daemon'', ''Cloud Registry'', ''Tar'']
        [SupportsImageCall ''Local Daemon'' True, GetFileSystemCall ''Local Daemon'' False,
         SupportsImageCall ''Cloud Registry'' True, GetFileSystemCall ''Cloud Registry'' True,
         GetConfigCall ''Cloud Registry'' True] True"
proof -
  let ?src = "''gcr.io/gcp-runtimes/diff-base''"
  let ?p = "\<lparr>ImagePrepper.Source = ?src, Client = ()\<rparr>"
  let ?D = "ex_Prepper ''Local Daemon'' True False True"
  let ?C = "ex_Prepper ''Cloud Registry'' True True True"
  let ?T = "ex_Prepper ''Tar'' True True True"
  let ?img = "\<lparr>Image.Source = ?src, FSPath = ''/tmp/gcr.io/gcp-runtimes/diff-base'',
               Config = ConfigSchema_zero\<rparr>"
  let ?cs = "[SupportsImageCall ''Local Daemon'' True, GetFileSystemCall ''Local Daemon'' False,
              SupportsImageCall ''Cloud Registry'' True, GetFileSystemCall ''Cloud Registry'' True,
              GetConfigCall ''Cloud Registry'' True]"
  have h1: "\<not> HasPrefix ?src DaemonPrefix" and h2: "\<not> HasPrefix ?src RemotePrefix"
    by (simp_all add: HasPrefix_def DaemonPrefix_def RemotePrefix_def)
  have h1': "\<not> HasPrefix (ImagePrepper.Source ?p) DaemonPrefix"
    and h2': "\<not> HasPrefix (ImagePrepper.Source ?p) RemotePrefix"
    using h1 h2 by simp_all
  have run: "GetImage ?D ?C ?T ?p = (Inr ?img, ?p, ?cs)"
    using h1 h2
    by (simp add: GetImage_def orderedPreppers_def ex_Prepper_def getImage_def GetSource_def)
  have n: "Name ?D = ''Local Daemon''" "Name ?C = ''Cloud Registry''" "Name ?T = ''Tar''"
    by (simp_all add: ex_Prepper_def)
  have "priority_trace [Name ?D, Name ?C, Name ?T] ?cs (\<not> isl (Inr ?img :: string + Image))"
    using resolve_unprefixed_priority[OF h1' h2' run] by blast
  then have "priority_trace [''Local Daemon'', ''Cloud Registry'', ''Tar''] ?cs True"
    unfolding n by simp
  with h1 h2 run show ?thesis by blast
qed

text \<open>
  Claim C9. With the daemon prefix, or the remote prefix, on the identifier, the resolver
  stores the identifier with the prefix deleted by \<open>strings.Replace\<close> with count
  \<open>-1\<close>, and an image that is returned carries this string, which is not the
  identifier given, as its \<open>Source\<close>. The deletion is of every occurrence: one after any \<open>a\<close> and before any \<open>b\<close> is deleted,
  and \<open>a\<close> and \<open>b\<close> are treated alike; a string without an occurrence is left as it is.
\<close>

theorem resolve_prefix_strips_every_occurrence:
  assumes "pre = DaemonPrefix \<or> pre = RemotePrefix"
      and "HasPrefix (ImagePrepper.Source p) pre"
      and "GetImage D C T p = (r, p', cs)"
  shows "ImagePrepper.Source p' = Replace_del (ImagePrepper.Source p) pre
       \<and> (\<forall>img. r = Inr img \<longrightarrow> Image.Source img = Replace_del (ImagePrepper.Source p) pre)
       \<and> Replace_del (ImagePrepper.Source p) pre \<noteq> ImagePrepper.Source p
       \<and> (\<forall>a b. Replace_del (a @ pre @ b) pre = Replace_del a pre @ Replace_del b pre)
       \<and> (\<forall>s. \<not> Contains s pre \<longrightarrow> Replace_del s pre = s)"
proof -
  define S where "S = (if pre = DaemonPrefix then D else C)"
  define q where "q = p\<lparr>ImagePrepper.Source := Replace_del (ImagePrepper.Source p) pre\<rparr>"
  have "DaemonPrefix \<noteq> RemotePrefix"
    by (simp add: DaemonPrefix_def RemotePrefix_def)
  with assms(1) have sel: "(pre = DaemonPrefix \<and> S = D) \<or> (pre = RemotePrefix \<and> S = C)"
    by (auto simp: S_def)
  have "GetImage D C T p = (fst (getImage S q), q, snd (getImage S q))"
    using sel assms(2) q_def by (rule GetImage_prefixed)
  with assms(3) have r: "r = fst (getImage S q)" and p': "p' = q"
    by auto
  have 1: "ImagePrepper.Source p' = Replace_del (ImagePrepper.Source p) pre"
    by (simp add: p' q_def)
  have 2: "Image.Source img = Replace_del (ImagePrepper.Source p) pre" if "r = Inr img" for img
    using getImage_Source[of S q img] that r by (simp add: q_def)
  have bl: "borderless pre" and ne: "pre \<noteq> []"
    using assms(1) borderless_Daemon borderless_Remote
    by (auto simp: DaemonPrefix_def RemotePrefix_def)
  have 3: "Replace_del (a @ pre @ b) pre = Replace_del a pre @ Replace_del b pre" for a b
    using bl ne by (rule Replace_del_occurrence)
  have 4: "Replace_del s pre = s" if "\<not> Contains s pre" for s
    using that by (rule Replace_del_absent)
  have 5: "Replace_del (ImagePrepper.Source p) pre \<noteq> ImagePrepper.Source p"
    using Replace_del_shorter[OF assms(2) ne] by auto
  from 1 2 3 4 5 show ?thesis by blast
qed

theorem resolve_prefix_strips_every_occurrence_witness:
  "HasPrefix ''remote://gcr.io/remote://x'' RemotePrefix
   \<and> GetImage (ex_Prepper ''Local Daemon'' True True True)
              (ex_Prepper ''Cloud Registry'' True True True)
              (ex_Prepper ''Tar'' True True True)
              \<lparr>ImagePrepper.Source = ''remote://gcr.io/remote://x'', Client = ()\<rparr>
       = (Inr \<lparr>Image.Source = ''gcr.io/x'', FSPath = ''/tmp/gcr.io/x'',
               Config = ConfigSchema_zero\<rparr>,
          \<lparr>ImagePrepper.Source = ''gcr.io/x'', Client = ()\<rparr>,
          [GetFileSystemCall ''Cloud Registry'' True, GetConfigCall ''Cloud Registry'' True])
   \<and> Replace_del ''remote://gcr.io/remote://x'' RemotePrefix = ''gcr.io/x''"
proof -
  let ?src = "''remote://gcr.io/remote://x''"
  let ?p = "\<lparr>ImagePrepper.Source = ?src, Client = ()\<rparr>"
  let ?q = "\<lparr>ImagePrepper.Source = ''gcr.io/x'', Client = ()\<rparr>"
  let ?D = "ex_Prepper ''Local Daemon'' True True True"
  let ?C = "ex_Prepper ''Cloud Registry'' True True True"
  let ?T = "ex_Prepper ''Tar'' True True True"
  let ?img = "\<lparr>Image.Source = ''gcr.io/x'', FSPath = ''/tmp/gcr.io/x'',
               Config = ConfigSchema_zero\<rparr>"
  let ?cs = "[GetFileSystemCall ''Cloud Registry'' True, GetConfigCall ''Cloud Registry'' True]"
  have h: "HasPrefix ?src RemotePrefix"
    by (simp add: HasPrefix_def RemotePrefix_def)
  have h': "HasPrefix (ImagePrepper.Source ?p) RemotePrefix"
    using h by simp
  have nd: "\<not> HasPrefix ?src DaemonPrefix"
    by (simp add: HasPrefix_def DaemonPrefix_def)
  have s: "Replace_del ?src RemotePrefix = ''gcr.io/x''"
    by (simp add: HasPrefix_def RemotePrefix_def)
  have run: "GetImage ?D ?C ?T ?p = (Inr ?img, ?q, ?cs)"
    using h nd s by (simp add: GetImage_def ex_Prepper_def getImage_def GetSource_def)
  have "ImagePrepper.Source ?q = Replace_del (ImagePrepper.Source ?p) RemotePrefix"
    using resolve_prefix_strips_every_occurrence[OF disjI2[OF refl] h' run] by blast
  then have "Replace_del ?src RemotePrefix = ''gcr.io/x''"
    by simp
  with h run show ?thesis by blast
qed

section \<open>Properties of CloudPrepper.SupportsImage\<close>

lemma CloudPrepper_SupportsImage_iff:
  "fst (CloudPrepper_SupportsImage IsTar reference_Parse p) \<longleftrightarrow>
     \<not> Contains (ImagePrepper.Source p) DaemonPrefix \<and> \<not> IsTar (ImagePrepper.Source p)
     \<and> isl (reference_Parse (ImagePrepper.Source p))"
  by (auto simp: CloudPrepper_SupportsImage_def Let_def split: sum.splits)

lemma CloudPrepper_SupportsImage_stored:
  "snd (CloudPrepper_SupportsImage IsTar reference_Parse p) =
     (if fst (CloudPrepper_SupportsImage IsTar reference_Parse p)
      then p\<lparr>ImagePrepper.Source := Replace_del (ImagePrepper.Source p) RemotePrefix\<rparr>
      else p)"
  by (auto simp: CloudPrepper_SupportsImage_def Let_def split: sum.splits)

lemma CloudPrepper_SupportsImage_rev2_iff:
  "fst (CloudPrepper_SupportsImage_rev2 IsTar reference_Parse p) \<longleftrightarrow>
     \<not> Contains (ImagePrepper.Source p) DaemonPrefix \<and> \<not> IsTar (ImagePrepper.Source p)
     \<and> \<not> isl (reference_Parse (ImagePrepper.Source p))"
  by (auto simp: CloudPrepper_SupportsImage_rev2_def split: sum.splits)

lemma CloudPrepper_SupportsImage_rev2_stored:
  "snd (CloudPrepper_SupportsImage_rev2 IsTar reference_Parse p) = p"
  by (auto simp: CloudPrepper_SupportsImage_rev2_def split: sum.splits)

text \<open>
  Claim C5. The first revision of \<open>CloudPrepper.SupportsImage\<close> answers false on an
  image name of the integration test, which has no daemon prefix, is no tar path and
  parses as a reference, and leaves it stored; it answers true on a string that does not
  parse. The second revision answers true and false on the same two inputs.
\<close>

theorem CloudPrepper_SupportsImage_inverted:
  "CloudPrepper_SupportsImage (\<lambda>s. False) ex_Parse
     \<lparr>ImagePrepper.Source = ''gcr.io/gcp-runtimes/diff-base'', Client = ()\<rparr>
     = (False, \<lparr>ImagePrepper.Source = ''gcr.io/gcp-runtimes/diff-base'', Client = ()\<rparr>)
   \<and> CloudPrepper_SupportsImage (\<lambda>s. False) ex_Parse
       \<lparr>ImagePrepper.Source = ''Not A Reference'', Client = ()\<rparr>
     = (True, \<lparr>ImagePrepper.Source = ''Not A Reference'', Client = ()\<rparr>)
   \<and> CloudPrepper_SupportsImage_rev2 (\<lambda>s. False) ex_Parse
       \<lparr>ImagePrepper.Source = ''gcr.io/gcp-runtimes/diff-base'', Client = ()\<rparr>
     = (True, \<lparr>ImagePrepper.Source = ''gcr.io/gcp-runtimes/diff-base'', Client = ()\<rparr>)
   \<and> CloudPrepper_SupportsImage_rev2 (\<lambda>s. False) ex_Parse
       \<lparr>ImagePrepper.Source = ''Not A Reference'', Client = ()\<rparr>
     = (False, \<lparr>ImagePrepper.Source = ''Not A Reference'', Client = ()\<rparr>)"
  by (simp add: CloudPrepper_SupportsImage_def CloudPrepper_SupportsImage_rev2_def ex_Parse_def
                DaemonPrefix_def RemotePrefix_def HasPrefix_def)

section \<open>Properties of image preparation\<close>

text \<open>
  In image\_prepper.go no image comes out of \<open>getImage\<close> when \<open>GetConfig\<close> fails, and
  so none out of the resolver from that strategy.
\<close>

lemma getImage_config_error:
  "GetConfig S p = Inl e \<Longrightarrow> isl (fst (getImage S p))"
  by (auto simp: getImage_def split: sum.splits)

lemma getImage_Inr_config:
  "fst (getImage S p) = Inr img \<Longrightarrow> GetConfig S p = Inr (Image.Config img)"
  by (auto simp: getImage_def split: sum.splits)

lemma getImage_part_002_config_error:
  "GetFileSystem S p = Inr path \<Longrightarrow> GetConfig S p = Inl e \<Longrightarrow>
     getImage_part_002 S p =
       (Inr \<lparr>Image.Source = ImagePrepper.Source p, FSPath = path, Config = ConfigSchema_zero\<rparr>,
        [''Error retrieving History: '' @ e])"
  by (simp add: getImage_part_002_def GetSource_def)

text \<open>
  Claim C6. For a strategy whose \<open>GetFileSystem\<close> succeeds and whose \<open>GetConfig\<close>
  fails, \<open>getImage\<close> of the second source file returns an image with the zero
  \<open>ConfigSchema\<close> and a nil error, the error of \<open>GetConfig\<close> going to the log only;
  \<open>getImage\<close> of image\_prepper.go returns that error and no image.
\<close>

theorem getImage_part_002_ignores_config_error:
  "getImage_part_002 (ex_Prepper ''Cloud Registry'' True True False)
     \<lparr>ImagePrepper.Source = ''gcr.io/gcp-runtimes/diff-base'', Client = ()\<rparr>
     = (Inr \<lparr>Image.Source = ''gcr.io/gcp-runtimes/diff-base'',
             FSPath = ''/tmp/gcr.io/gcp-runtimes/diff-base'', Config = ConfigSchema_zero\<rparr>,
        [''Error retrieving History: no config''])
   \<and> fst (getImage (ex_Prepper ''Cloud Registry'' True True False)
       \<lparr>ImagePrepper.Source = ''gcr.io/gcp-runtimes/diff-base'', Client = ()\<rparr>)
     = Inl ''error msg: no config''"
  by (simp add: getImage_part_002_def getImage_def ex_Prepper_def GetSource_def)

section \<open>Properties of the renderer\<close>

lemma loop_json:
  assumes "set ks \<subseteq> fst ` set m" "i + length ks \<le> length results"
  shows "outputResults_loop True m i ks results =
           (take i results @ map (\<lambda>k. Some (OutputStruct (the (map_of m k)))) ks
              @ drop (i + length ks) results, [])"
  using assms
proof (induction ks arbitrary: i results)
  case Nil
  then show ?case by simp
next
  case (Cons k ks)
  from Cons.prems(1) obtain r where r: "map_of m k = Some r"
    by (cases "map_of m k") (auto simp: map_of_eq_None_iff)
  let ?res = "results[i := Some (OutputStruct r)]"
  have i: "i < length results"
    using Cons.prems(2) by simp
  have "outputResults_loop True m i (k # ks) results
          = outputResults_loop True m (Suc i) ks ?res"
    using r by simp
  also have "\<dots> = (take (Suc i) ?res @ map (\<lambda>k. Some (OutputStruct (the (map_of m k)))) ks
              @ drop (Suc i + length ks) ?res, [])"
    using Cons.prems by (intro Cons.IH) auto
  also have "take (Suc i) ?res = take i results @ [Some (OutputStruct r)]"
    using i by (simp add: take_Suc_conv_app_nth)
  also have "drop (Suc i + length ks) ?res = drop (i + length (k # ks)) results"
    by simp
  finally show ?case using r by simp
qed

lemma loop_text:
  assumes "set ks \<subseteq> fst ` set m"
  shows "outputResults_loop False m i ks results = (results, concat (map (render_text m) ks))"
  using assms
proof (induction ks arbitrary: i)
  case Nil
  then show ?case by simp
next
  case (Cons k ks)
  from Cons.prems(1) obtain r where r: "map_of m k = Some r"
    by (cases "map_of m k") (auto simp: map_of_eq_None_iff)
  have "outputResults_loop False m (Suc i) ks results
          = (results, concat (map (render_text m) ks))"
    using Cons.prems by (intro Cons.IH) auto
  moreover have "render_text m k =
      OutputTextCall k # (case OutputText r k of None \<Rightarrow> [] | Some err \<Rightarrow> [ErrorLogged err])"
    using r by (simp add: render_text_def)
  ultimately show ?case using r by simp
qed

lemma NilResult_text: "NilResult \<notin> set (concat (map (render_text m) ks))"
  by (induction ks) (auto simp: render_text_def split: option.splits)

lemma rendered_text: "rendered (concat (map (render_text m) ks)) = ks"
  by (induction ks) (auto simp: render_text_def split: option.splits)

lemma outputResults_json:
  "outputResults True J m =
     (let results = map (\<lambda>k. Some (OutputStruct (the (map_of m k)))) (sort (map fst m))
      in JSONifyCall results # (case J results of None \<Rightarrow> [] | Some err \<Rightarrow> [ErrorLogged err]))"
proof -
  have "outputResults_loop True m 0 (sort (map fst m)) (replicate (length m) None)
      = (map (\<lambda>k. Some (OutputStruct (the (map_of m k)))) (sort (map fst m)), [])"
    using loop_json[of "sort (map fst m)" m 0 "replicate (length m) None"] by simp
  then show ?thesis by (simp add: outputResults_def Let_def)
qed

lemma outputResults_text:
  "outputResults False J m = concat (map (render_text m) (sort (map fst m)))"
proof -
  have "outputResults_loop False m 0 (sort (map fst m)) (replicate (length m) None)
      = (replicate (length m) None, concat (map (render_text m) (sort (map fst m))))"
    using loop_text[of "sort (map fst m)" m] by simp
  then show ?thesis by (simp add: outputResults_def Let_def NilResult_text)
qed

lemma sort_keys_perm:
  assumes "distinct (map fst m)" "distinct (map fst m')" "set m' = set m"
  shows "sort (map fst m') = sort (map fst m)" "map_of m' = map_of m"
proof -
  have "set (map fst m') = set (map fst m)"
    using assms(3) by simp
  then show "sort (map fst m') = sort (map fst m)"
    using assms(1,2) by (intro sorted_distinct_set_unique) auto
  show "map_of m' = map_of m"
    using assms by (simp add: map_of_inject_set)
qed

lemma outputResults_perm:
  assumes "distinct (map fst m)" "distinct (map fst m')" "set m' = set m"
  shows "outputResults json J m' = outputResults json J m"
  using sort_keys_perm[OF assms]
  by (cases json) (simp_all add: outputResults_json outputResults_text render_text_def[abs_def])

text \<open>
  Claim C7. For a map of results (distinct analyzer names), in JSON mode the one payload
  given to \<open>JSONify\<close> lists the structured results of the analyzers in the sorted order
  of their names, and in text mode \<open>OutputText\<close> is called analyzer by analyzer in that
  order; the order is strictly ascending and covers exactly the names of the map; and
  the output is the same for every order in which the map holds the same entries.
\<close>

theorem outputResults_analyzer_order:
  assumes "distinct (map fst resultMap)"
  shows "outputResults True JSONify resultMap =
           (let results = map (\<lambda>k. Some (OutputStruct (the (map_of resultMap k))))
                              (sort (map fst resultMap))
            in JSONifyCall results #
               (case JSONify results of None \<Rightarrow> [] | Some err \<Rightarrow> [ErrorLogged err]))
       \<and> rendered (outputResults False JSONify resultMap) = sort (map fst resultMap)
       \<and> sorted_wrt (<) (sort (map fst resultMap))
       \<and> set (sort (map fst resultMap)) = fst ` set resultMap
       \<and> (\<forall>m' json. distinct (map fst m') \<and> set m' = set resultMap \<longrightarrow>
            outputResults json JSONify m' = outputResults json JSONify resultMap)"
proof -
  have "sorted_wrt (<) (sort (map fst resultMap))"
    using assms by (simp add: strict_sorted_iff)
  moreover have "rendered (outputResults False JSONify resultMap) = sort (map fst resultMap)"
    by (simp add: outputResults_text rendered_text)
  moreover have "outputResults json JSONify m' = outputResults json JSONify resultMap"
    if "distinct (map fst m')" "set m' = set resultMap" for m' json
    using assms that by (rule outputResults_perm)
  ultimately show ?thesis
    using outputResults_json[of JSONify resultMap] by auto
qed

theorem outputResults_analyzer_order_witness:
  "distinct (map fst [(''pip'', ex_Result 1 None), (''apt'', ex_Result 2 (Some ''no dpkg'')),
                      (''node'', ex_Result 3 None)])
   \<and> outputResults True (\<lambda>results. None)
        [(''pip'', ex_Result 1 None), (''apt'', ex_Result 2 (Some ''no dpkg'')),
         (''node'', ex_Result 3 None)]
       = [JSONifyCall [Some 2, Some 3, Some 1]]
   \<and> rendered (outputResults False (\<lambda>results. None)
        [(''pip'', ex_Result 1 None), (''apt'', ex_Result 2 (Some ''no dpkg'')),
         (''node'', ex_Result 3 None)])
       = [''apt'', ''node'', ''pip'']"
proof -
  let ?m = "[(''pip'', ex_Result 1 None), (''apt'', ex_Result 2 (Some ''no dpkg'')),
             (''node'', ex_Result 3 None)]"
  let ?J = "\<lambda>results :: nat option list. None :: string option"
  have d: "distinct (map fst ?m)"
    by simp
  have s: "sort (map fst ?m) = [''apt'', ''node'', ''pip'']"
    by simp
  have "rendered (outputResults False ?J ?m) = sort (map fst ?m)"
    using outputResults_analyzer_order[OF d, of ?J] by blast
  then have "rendered (outputResults False ?J ?m) = [''apt'', ''node'', ''pip'']"
    using s by simp
  moreover have "outputResults True ?J ?m = [JSONifyCall [Some 2, Some 3, Some 1]]"
    by (simp add: outputResults_def ex_Result_def)
  ultimately show ?thesis using d by blast
qed

text \<open>
  Claim C8. In text mode the output is the rendering of each analyzer of the map, in
  sorted order, one after the other: \<open>OutputText\<close> is called for every analyzer whatever
  the others returned, and every error it returns is in the log.
\<close>

theorem outputResults_text_continues:
  assumes "distinct (map fst resultMap)"
  shows "outputResults False JSONify resultMap
           = concat (map (render_text resultMap) (sort (map fst resultMap)))
       \<and> (\<forall>(k, r)\<in>set resultMap.
             OutputTextCall k \<in> set (outputResults False JSONify resultMap)
             \<and> (\<forall>err. OutputText r k = Some err \<longrightarrow>
                  ErrorLogged err \<in> set (outputResults False JSONify resultMap)))"
proof -
  have out: "outputResults False JSONify resultMap
           = concat (map (render_text resultMap) (sort (map fst resultMap)))"
    by (rule outputResults_text)
  have "OutputTextCall k \<in> set (outputResults False JSONify resultMap)
        \<and> (\<forall>err. OutputText r k = Some err \<longrightarrow>
              ErrorLogged err \<in> set (outputResults False JSONify resultMap))"
    if kr: "(k, r) \<in> set resultMap" for k r
  proof -
    from kr have k: "k \<in> set (sort (map fst resultMap))"
      by force
    from kr assms have "map_of resultMap k = Some r"
      by simp
    then have "render_text resultMap k =
        OutputTextCall k # (case OutputText r k of None \<Rightarrow> [] | Some err \<Rightarrow> [ErrorLogged err])"
      by (simp add: render_text_def)
    then have "OutputTextCall k \<in> set (render_text resultMap k)"
      and "\<forall>err. OutputText r k = Some err \<longrightarrow> ErrorLogged err \<in> set (render_text resultMap k)"
      by auto
    with k show ?thesis
      unfolding out by auto
  qed
  with out show ?thesis by blast
qed

theorem outputResults_text_continues_witness:
  "distinct (map fst [(''pip'', ex_Result 1 None), (''apt'', ex_Result 2 (Some ''no dpkg'')),
                      (''node'', ex_Result 3 None)])
   \<and> outputResults False (\<lambda>results. None)
        [(''pip'', ex_Result 1 None), (''apt'', ex_Result 2 (Some ''no dpkg'')),
         (''node'', ex_Result 3 None)]
       = [OutputTextCall ''apt'', ErrorLogged ''no dpkg'', OutputTextCall ''node'',
          OutputTextCall ''pip'']"
proof -
  let ?m = "[(''pip'', ex_Result 1 None), (''apt'', ex_Result 2 (Some ''no dpkg'')),
             (''node'', ex_Result 3 None)]"
  let ?J = "\<lambda>results :: nat option list. None :: string option"
  have d: "distinct (map fst ?m)"
    by simp
  have s: "sort (map fst ?m) = [''apt'', ''node'', ''pip'']"
    by simp
  have "outputResults False ?J ?m = concat (map (render_text ?m) (sort (map fst ?m)))"
    using outputResults_text_continues[OF d, of ?J] by blast
  then have "outputResults False ?J ?m = concat (map (render_text ?m) [''apt'', ''node'', ''pip''])"
    using s by simp
  then have "outputResults False ?J ?m
       = [OutputTextCall ''apt'', ErrorLogged ''no dpkg'', OutputTextCall ''node'',
          OutputTextCall ''pip'']"
    by (simp add: render_text_def ex_Result_def)
  with d show ?thesis by blast
qed

section \<open>Properties of CleanupImage\<close>

text \<open>
  Claim C10. On an image with an empty \<open>FSPath\<close>, \<open>CleanupImage\<close> calls no removal and
  leaves the filesystem as it is. On any other image its one effect on the filesystem
  is \<open>os.RemoveAll\<close> of the \<open>FSPath\<close>, and an error of that call goes to the log. The
  image is the same at the end, and there is no error result.
\<close>

theorem CleanupImage_frame:
  "(FSPath img = [] \<longrightarrow> CleanupImage RemoveAll img fs = (img, fs, [], []))
   \<and> (FSPath img \<noteq> [] \<longrightarrow>
        CleanupImage RemoveAll img fs =
          (img, fst (RemoveAll (FSPath img) fs), [FSPath img],
           (case snd (RemoveAll (FSPath img) fs) of None \<Rightarrow> [] | Some err \<Rightarrow> [err])))
   \<and> fst (CleanupImage RemoveAll img fs) = img"
  by (auto simp: CleanupImage_def split: prod.splits option.splits)

theorem CleanupImage_frame_witness:
  "CleanupImage ex_RemoveAll \<lparr>Image.Source = ''a'', FSPath = [], Config = ConfigSchema_zero\<rparr>
      [''/tmp/a'', ''/tmp/a/etc/passwd'', ''/tmp/ab'', ''/home/user'']
     = (\<lparr>Image.Source = ''a'', FSPath = [], Config = ConfigSchema_zero\<rparr>,
        [''/tmp/a'', ''/tmp/a/etc/passwd'', ''/tmp/ab'', ''/home/user''], [], [])
   \<and> CleanupImage ex_RemoveAll
        \<lparr>Image.Source = ''a'', FSPath = ''/tmp/a'', Config = ConfigSchema_zero\<rparr>
        [''/tmp/a'', ''/tmp/a/etc/passwd'', ''/tmp/ab'', ''/home/user'']
     = (\<lparr>Image.Source = ''a'', FSPath = ''/tmp/a'', Config = ConfigSchema_zero\<rparr>,
        [''/tmp/ab'', ''/home/user''], [''/tmp/a''], [])
   \<and> CleanupImage ex_RemoveAll_denied
        \<lparr>Image.Source = ''a'', FSPath = ''/tmp/a'', Config = ConfigSchema_zero\<rparr>
        [''/tmp/a'', ''/tmp/a/etc/passwd'', ''/tmp/ab'', ''/home/user'']
     = (\<lparr>Image.Source = ''a'', FSPath = ''/tmp/a'', Config = ConfigSchema_zero\<rparr>,
        [''/tmp/a'', ''/tmp/a/etc/passwd'', ''/tmp/ab'', ''/home/user''], [''/tmp/a''],
        [''permission denied''])"
proof -
  let ?fs = "[''/tmp/a'', ''/tmp/a/etc/passwd'', ''/tmp/ab'', ''/home/user'']"
  let ?i0 = "\<lparr>Image.Source = ''a'', FSPath = [], Config = ConfigSchema_zero\<rparr>"
  let ?i1 = "\<lparr>Image.Source = ''a'', FSPath = ''/tmp/a'', Config = ConfigSchema_zero\<rparr>"
  have e: "FSPath ?i0 = []" and n: "FSPath ?i1 \<noteq> []"
    by simp_all
  have r: "ex_RemoveAll (FSPath ?i1) ?fs = ([''/tmp/ab'', ''/home/user''], None)"
    by (simp add: ex_RemoveAll_def HasPrefix_def)
  have d: "ex_RemoveAll_denied (FSPath ?i1) ?fs = (?fs, Some ''permission denied'')"
    by (simp add: ex_RemoveAll_denied_def)
  have "CleanupImage ex_RemoveAll ?i0 ?fs = (?i0, ?fs, [], [])"
    using CleanupImage_frame[of ?i0 ex_RemoveAll ?fs] e by blast
  moreover have "CleanupImage ex_RemoveAll ?i1 ?fs =
      (?i1, fst (ex_RemoveAll (FSPath ?i1) ?fs), [FSPath ?i1],
       (case snd (ex_RemoveAll (FSPath ?i1) ?fs) of None \<Rightarrow> [] | Some err \<Rightarrow> [err]))"
    using CleanupImage_frame[of ?i1 ex_RemoveAll ?fs] n by blast
  moreover have "CleanupImage ex_RemoveAll_denied ?i1 ?fs =
      (?i1, fst (ex_RemoveAll_denied (FSPath ?i1) ?fs), [FSPath ?i1],
       (case snd (ex_RemoveAll_denied (FSPath ?i1) ?fs) of None \<Rightarrow> [] | Some err \<Rightarrow> [err]))"
    using CleanupImage_frame[of ?i1 ex_RemoveAll_denied ?fs] n by blast
  ultimately show ?thesis
    unfolding r d by simp
qed

section \<open>Properties of processLayers\<close>

lemma pl_inv_init: "pl_inv pl_init"
  by (simp add: pl_inv_def pl_init_def make_chan_def)

lemma pl_inv_step_caller: "pl_inv s \<Longrightarrow> pl_inv (step_caller s)"
  by (auto simp: pl_inv_def step_caller_def chan_len_def)

lemma pl_inv_step_spawner: "pl_inv s \<Longrightarrow> pl_inv (step_spawner layerInfos s)"
  by (auto simp: pl_inv_def step_spawner_def split: spawner.splits)

lemma pl_inv_step_worker: "pl_inv s \<Longrightarrow> pl_inv (step_worker caps path layerInfos i s)"
  by (auto simp: pl_inv_def step_worker_def split: worker.splits sum.splits option.splits)

lemma pl_inv_step: "pl_inv s \<Longrightarrow> pl_inv (step caps path layerInfos s g)"
  by (cases g) (simp_all add: pl_inv_step_caller pl_inv_step_spawner pl_inv_step_worker)

lemma pl_inv_foldl: "pl_inv s \<Longrightarrow> pl_inv (foldl (step caps path layerInfos) s sched)"
  by (induction sched arbitrary: s) (simp_all add: pl_inv_step)

lemma pl_inv_processLayers: "pl_inv (processLayers caps path layerInfos sched)"
  unfolding processLayers_def by (rule pl_inv_foldl[OF pl_inv_init])

lemma caller_step:
  assumes "pl_inv s" "caller s = caller_after n"
  shows "caller (step caps path layerInfos s g) = caller_after (if g = Caller then Suc n else n)"
proof (cases g)
  case Caller
  with assms show ?thesis
    by (cases n rule: caller_after.cases)
       (auto simp: step_caller_def pl_inv_def chan_len_def)
next
  case Spawner
  with assms show ?thesis
    by (auto simp: step_spawner_def split: spawner.splits)
next
  case (Worker i)
  with assms show ?thesis
    by (cases n rule: caller_after.cases)
       (auto simp: step_worker_def pl_inv_def split: worker.splits sum.splits option.splits)
qed

lemma caller_foldl:
  "pl_inv s \<Longrightarrow> caller s = caller_after n \<Longrightarrow>
     caller (foldl (step caps path layerInfos) s sched) = caller_after (n + count_list sched Caller)"
proof (induction sched arbitrary: s n)
  case Nil
  then show ?case by simp
next
  case (Cons g sched)
  have "pl_inv (step caps path layerInfos s g)"
    using Cons.prems(1) by (rule pl_inv_step)
  moreover have "caller (step caps path layerInfos s g)
      = caller_after (if g = Caller then Suc n else n)"
    using Cons.prems by (rule caller_step)
  ultimately have "caller (foldl (step caps path layerInfos) (step caps path layerInfos s g) sched)
      = caller_after ((if g = Caller then Suc n else n) + count_list sched Caller)"
    by (rule Cons.IH)
  then show ?case by simp
qed

lemma caller_processLayers:
  "caller (processLayers caps path layerInfos sched) = caller_after (count_list sched Caller)"
  unfolding processLayers_def
  using caller_foldl[OF pl_inv_init, of 0 caps path layerInfos sched]
  by (simp add: pl_init_def)

text \<open>
  Claim C1. With two layers that are fetched and unpacked without error, a schedule in
  which the worker of the second layer runs first applies the second layer before the
  first, and one in which the two workers alternate applies them at the same time;
  only a schedule that runs the workers one after the other in the order of their
  layers applies the layers in order.
\<close>

theorem processLayers_applies_out_of_order:
  "applied (processLayers ex_caps ''/tmp/img'' [''sha256:aaa'', ''sha256:bbb'']
      [Caller, Spawner, Worker 1, Worker 1, Worker 1, Worker 0, Worker 0, Worker 0])
     = [Begin 1, End 1, Begin 0, End 0]
   \<and> \<not> in_layer_order [Begin 1, End 1, Begin 0, End 0]
   \<and> applied (processLayers ex_caps ''/tmp/img'' [''sha256:aaa'', ''sha256:bbb'']
      [Caller, Spawner, Worker 0, Worker 1, Worker 0, Worker 1, Worker 1, Worker 0])
     = [Begin 0, Begin 1, End 1, End 0]
   \<and> \<not> in_layer_order [Begin 0, Begin 1, End 1, End 0]
   \<and> applied (processLayers ex_caps ''/tmp/img'' [''sha256:aaa'', ''sha256:bbb'']
      [Caller, Spawner, Worker 0, Worker 0, Worker 0, Worker 1, Worker 1, Worker 1])
     = [Begin 0, End 0, Begin 1, End 1]
   \<and> in_layer_order [Begin 0, End 0, Begin 1, End 1]"
  by (simp add: processLayers_def pl_init_def make_chan_def step_caller_def step_spawner_def
                step_worker_def fetch_layer_def ex_caps_def in_layer_order_def)

text \<open>
  Claim C2. Whatever the layers, the capabilities and the schedule, the value
  \<open>processLayers\<close> returns is nil, and it returns after two steps of the caller
  without waiting for a worker: a failure of a worker is never received.
\<close>

theorem processLayers_returns_nil:
  "(caller (processLayers caps path layerInfos sched) = CReturned r \<longrightarrow> r = None)
   \<and> (2 \<le> count_list sched Caller \<longrightarrow>
        caller (processLayers caps path layerInfos sched) = CReturned None)"
proof -
  have "r = None" if "caller (processLayers caps path layerInfos sched) = CReturned r"
    using that pl_inv_processLayers[of caps path layerInfos sched]
    by (auto simp: pl_inv_def)
  moreover have "caller (processLayers caps path layerInfos sched) = CReturned None"
    if "2 \<le> count_list sched Caller"
  proof -
    from that obtain n where "count_list sched Caller = Suc (Suc n)"
      by (metis Suc_le_D numeral_2_eq_2 Suc_le_mono)
    then show ?thesis by (simp add: caller_processLayers)
  qed
  ultimately show ?thesis by blast
qed

theorem processLayers_returns_nil_witness:
  "2 \<le> count_list [Caller, Spawner, Worker 0, Worker 1, Caller, Worker 0, Worker 0, Worker 1]
         Caller
   \<and> processLayers ex_caps ''/tmp/img'' [''sha256:aaa'', ''sha256:bad'']
        [Caller, Spawner, Worker 0, Worker 1, Caller, Worker 0, Worker 0, Worker 1]
     = \<lparr>errs = \<lparr>cap = 0, queue = [], closed = False\<rparr>,
        caller = CReturned None,
        spawner = SWait,
        workers = [Done, Sending ''Failed to pull image layer: connection reset''],
        applied = [Begin 0, End 0]\<rparr>"
proof -
  let ?sched = "[Caller, Spawner, Worker 0, Worker 1, Caller, Worker 0, Worker 0, Worker 1]"
  let ?s = "processLayers ex_caps ''/tmp/img'' [''sha256:aaa'', ''sha256:bad''] ?sched"
  have c: "2 \<le> count_list ?sched Caller"
    by simp
  have ret: "caller ?s = CReturned None"
    using processLayers_returns_nil[of ex_caps "''/tmp/img''" "[''sha256:aaa'', ''sha256:bad'']"
        ?sched None] c by blast
  have "?s = \<lparr>errs = \<lparr>cap = 0, queue = [], closed = False\<rparr>,
        caller = caller ?s,
        spawner = SWait,
        workers = [Done, Sending ''Failed to pull image layer: connection reset''],
        applied = [Begin 0, End 0]\<rparr>"
    by (simp add: processLayers_def pl_init_def make_chan_def step_caller_def step_spawner_def
                  step_worker_def fetch_layer_def ex_caps_def chan_len_def)
  with ret c show ?thesis by simp
qed

end
